theory Spec2Isabelle
  imports Main "HOL-Library.Word"
begin

unbundle bit_operations_syntax

section \<open>The binary program loader (\<^verbatim>\<open>source/file_io.py\<close>, function \<^verbatim>\<open>load\<close>)\<close>

text \<open>
  A file opened in mode \<^verbatim>\<open>"rb"\<close> is its sequence of bytes; the read position is
  modelled by the list of bytes not yet consumed. An element of a Python \<^verbatim>\<open>bytes\<close>
  object is an integer in \<open>0..255\<close>, here an 8-bit word, read as a Python \<^verbatim>\<open>int\<close>
  with \<open>uint\<close>. Python integers are unbounded: \<open>int\<close>.
\<close>

type_synonym byte = "8 word"

text \<open>The tuple \<^verbatim>\<open>(memory_flag, value, opcode)\<close> appended by \<^verbatim>\<open>load\<close>.\<close>

type_synonym instruction = "int \<times> int \<times> int"

text \<open>
  The exceptions \<^verbatim>\<open>load\<close> can raise once the file is open: the bare
  \<^verbatim>\<open>raise Exception\<close> of line 31 and the \<^verbatim>\<open>IndexError\<close> of an out-of-range
  subscript on \<^verbatim>\<open>raw_instruction\<close>.
\<close>

datatype error = PyException | IndexError

text \<open>The byte strings \<^verbatim>\<open>b'QT'\<close>, \<^verbatim>\<open>b'QM'\<close> and \<^verbatim>\<open>b'\x00'\<close>.\<close>

definition QT :: "byte list" where
  "QT = [0x51, 0x54]"

definition QM :: "byte list" where
  "QM = [0x51, 0x4D]"

definition NUL :: "byte list" where
  "NUL = [0x00]"

text \<open>
  \<^verbatim>\<open>file.read(n)\<close>: up to \<open>n\<close> bytes from the read position, fewer (possibly none)
  at end of file; the position advances past them.
\<close>

definition read :: "nat \<Rightarrow> byte list \<Rightarrow> byte list \<times> byte list" where
  "read n file = (take n file, drop n file)"

text \<open>
  The subscript \<^verbatim>\<open>raw[i]\<close> for a non-negative constant \<open>i\<close>: \<^verbatim>\<open>IndexError\<close> when
  out of range.
\<close>

definition subscript :: "byte list \<Rightarrow> nat \<Rightarrow> error + int" where
  "subscript raw i = (if i < length raw then Inr (uint (raw ! i)) else Inl IndexError)"

text \<open>
  The slice \<^verbatim>\<open>raw[i:j]\<close> for non-negative constants: never an error, clipped to
  the bytes that exist.
\<close>

definition slice :: "'a list \<Rightarrow> nat \<Rightarrow> nat \<Rightarrow> 'a list" where
  "slice raw i j = drop i (take j raw)"

text \<open>
  \<^verbatim>\<open>int.from_bytes(bs)\<close> with the default byte order, which is \<^verbatim>\<open>"big"\<close> (the
  default exists from Python 3.11 on): the most significant byte first, and 0 for the
  empty byte string.
\<close>

definition from_bytes :: "byte list \<Rightarrow> int" where
  "from_bytes bs = foldl (\<lambda>acc b. acc * 256 + uint b) 0 bs"

text \<open>
  Lines 35 to 37: the body of the decoding loop, in the source's evaluation order.
  \<^verbatim>\<open>
  memory_flag = raw_instruction[0] & 1
  value = int.from_bytes(raw_instruction[1:3])
  opcode = raw_instruction[3]
  \<close>
\<close>

definition decode_instruction :: "byte list \<Rightarrow> error + instruction" where
  "decode_instruction raw_instruction =
     (case subscript raw_instruction 0 of
        Inl e \<Rightarrow> Inl e
      | Inr b0 \<Rightarrow>
          (let memory_flag = b0 AND 1;
               value = from_bytes (slice raw_instruction 1 3)
           in case subscript raw_instruction 3 of
                Inl e \<Rightarrow> Inl e
              | Inr opcode \<Rightarrow> Inr (memory_flag, value, opcode)))"

text \<open>
  Lines 20 to 22: the header loop.
  \<^verbatim>\<open>
  namespace = b''
  while (char := file.read(1)) != b'\x00':
      namespace += char
  \<close>
  At end of file \<^verbatim>\<open>file.read(1)\<close> is \<^verbatim>\<open>b''\<close>, which differs from \<^verbatim>\<open>b'\x00'\<close>, so
  the loop goes on with the same state: it need not terminate, and not returning is
  the value \<open>None\<close>. The result is the namespace and the rest of the file.
\<close>

partial_function (option) read_header :: "byte list \<Rightarrow> byte list \<Rightarrow> (byte list \<times> byte list) option" where
  "read_header file namespace =
     (case read 1 file of (char, file') \<Rightarrow>
        if char \<noteq> NUL then read_header file' (namespace @ char)
        else Some (namespace, file'))"

declare read_header.simps [code]

text \<open>
  Lines 25 to 31: the read at the top of the decoding loop, which depends on the
  namespace and raises for any namespace other than \<^verbatim>\<open>b'QT'\<close> and \<^verbatim>\<open>b'QM'\<close>.
\<close>

definition read_raw_instruction :: "byte list \<Rightarrow> byte list \<Rightarrow> error + (byte list \<times> byte list)" where
  "read_raw_instruction namespace file =
     (if namespace = QT then Inr (read 4 file)
      else if namespace = QM then Inr (read 3 file)
      else Inl PyException)"

text \<open>
  Lines 25 to 39: the decoding loop \<^verbatim>\<open>while True\<close>. It leaves by \<^verbatim>\<open>break\<close> when the
  read returns no byte, and by an exception. Every other iteration consumes at least
  one byte, so the loop terminates.
\<close>

function decode_loop :: "byte list \<Rightarrow> byte list \<Rightarrow> instruction list \<Rightarrow> error + instruction list" where
  "decode_loop namespace file instructions =
     (case read_raw_instruction namespace file of
        Inl e \<Rightarrow> Inl e
      | Inr (raw_instruction, file') \<Rightarrow>
          if raw_instruction = [] then Inr instructions
          else (case decode_instruction raw_instruction of
                  Inl e \<Rightarrow> Inl e
                | Inr ins \<Rightarrow> decode_loop namespace file' (instructions @ [ins])))"
  by pat_completeness auto
termination
proof (relation "measure (\<lambda>(namespace, file, instructions). length file)")
  show "wf (measure (\<lambda>(namespace, file, instructions). length file))"
    by simp
next
  fix ns bytes :: "byte list" and acc :: "instruction list"
    and x y raw rest ins
  assume "read_raw_instruction ns bytes = Inr x"
    and "(raw, rest) = x"
    and "raw \<noteq> []"
  then have "bytes \<noteq> [] \<and> (rest = drop 4 bytes \<or> rest = drop 3 bytes)"
    by (auto simp: read_raw_instruction_def read_def split: if_splits)
  then show "((ns, rest, acc @ [ins]), ns, bytes, acc)
      \<in> measure (\<lambda>(namespace, file, instructions). length file)"
    by auto
qed

declare decode_loop.simps [simp del]

text \<open>
  The function \<^verbatim>\<open>load\<close>, applied to the contents of the file at \<^verbatim>\<open>filepath\<close>.
  \<open>None\<close>: the call does not return. \<open>Some (Inl e)\<close>: it raises \<open>e\<close>.
  \<open>Some (Inr instructions)\<close>: it returns the list.
\<close>

definition load :: "byte list \<Rightarrow> (error + instruction list) option" where
  "load file =
     (case read_header file [] of
        None \<Rightarrow> None
      | Some (namespace, file') \<Rightarrow> Some (decode_loop namespace file' []))"

text \<open>
  The \<open>i\<close>-th group (0-based) of \<open>n\<close> consecutive bytes of a byte sequence: the bytes
  one call \<^verbatim>\<open>file.read(n)\<close> returns after \<open>i\<close> earlier such calls.
\<close>

definition byte_group :: "nat \<Rightarrow> byte list \<Rightarrow> nat \<Rightarrow> byte list" where
  "byte_group n body i = take n (drop (n * i) body)"

subsection \<open>The wide encoder\<close>

text \<open>
  Modelled from the spec: the encoder of the wide 4-byte form. It belongs to the
  external compiler and is not in the sources; this is the layout of section 4.1 of
  the spec, read in the writing direction, for an
  \<^verbatim>\<open>Instruction{memory_flag: bool, value: u16, opcode: u8}\<close>: the least-significant
  bit of byte 0 is \<^verbatim>\<open>memory_flag\<close> (the other bits of byte 0 are written as 0), bytes 1
  and 2 are \<^verbatim>\<open>value\<close> in big-endian order, byte 3 is \<^verbatim>\<open>opcode\<close>.
\<close>

definition encode_wide :: "bool \<Rightarrow> 16 word \<Rightarrow> 8 word \<Rightarrow> byte list" where
  "encode_wide memory_flag val opcode =
     [of_bool memory_flag, ucast (drop_bit 8 val), ucast val, opcode]"

section \<open>The memory dump writer (\<^verbatim>\<open>source/file_io.py\<close>, class \<^verbatim>\<open>QTEmulatorIO\<close>)\<close>

subsection \<open>Python text formatting\<close>

text \<open>The line feed character \<^verbatim>\<open>"\n"\<close>.\<close>

definition newline :: char where
  "newline = CHR 0x0A"

text \<open>
  The decimal digits of a non-negative integer, as \<^verbatim>\<open>str\<close> and the presentation type
  \<^verbatim>\<open>d\<close> print them: most significant digit first, no leading zero, \<^verbatim>\<open>"0"\<close> for 0.
\<close>

definition digit :: "nat \<Rightarrow> char" where
  "digit d = ''0123456789'' ! d"

function decimal :: "nat \<Rightarrow> string" where
  "decimal n = (if n < 10 then [digit n] else decimal (n div 10) @ [digit (n mod 10)])"
  by pat_completeness auto
termination
  by (relation "measure (\<lambda>n. n)") auto

declare decimal.simps [simp del]

text \<open>
  The format specifications of the f-strings, for a non-negative integer \<open>n\<close> and a
  string \<open>s\<close>. A field that is already as wide as the width or wider is not padded and
  not cut.
  \<^item> \<^verbatim>\<open>f"{n:0{width}d}"\<close>: the digits, filled with \<^verbatim>\<open>0\<close> on the left up to the width.
  \<^item> \<^verbatim>\<open>f"{n: {width}d}"\<close>: a space as the sign of a non-negative number, then the
    digits, right-aligned with spaces up to the width.
  \<^item> \<^verbatim>\<open>f"{s:=^{width}}"\<close>: \<open>s\<close> centred with the fill character \<^verbatim>\<open>=\<close>; of an odd
    number of fill characters the smaller half goes to the left.
  \<^item> \<^verbatim>\<open>f"{s: <4}"\<close>: \<open>s\<close> left-aligned with spaces.
\<close>

definition format_0d :: "nat \<Rightarrow> nat \<Rightarrow> string" where
  "format_0d width n = (let s = decimal n in replicate (width - length s) CHR ''0'' @ s)"

definition format_space_d :: "nat \<Rightarrow> nat \<Rightarrow> string" where
  "format_space_d width n =
     (let s = CHR '' '' # decimal n in replicate (width - length s) CHR '' '' @ s)"

definition format_center :: "char \<Rightarrow> nat \<Rightarrow> string \<Rightarrow> string" where
  "format_center fill width s =
     (let padding = width - length s; left = padding div 2
      in replicate left fill @ s @ replicate (padding - left) fill)"

definition format_left :: "char \<Rightarrow> nat \<Rightarrow> string \<Rightarrow> string" where
  "format_left fill width s = s @ replicate (width - length s) fill"

text \<open>\<^verbatim>\<open>str.upper()\<close> on ASCII text: the 26 lower-case letters change, nothing else does.\<close>

definition upper_char :: "char \<Rightarrow> char" where
  "upper_char c =
     (case map_of (zip ''abcdefghijklmnopqrstuvwxyz'' ''ABCDEFGHIJKLMNOPQRSTUVWXYZ'') c of
        Some u \<Rightarrow> u
      | None \<Rightarrow> c)"

definition upper :: "string \<Rightarrow> string" where
  "upper s = map upper_char s"

text \<open>\<^verbatim>\<open>sep.join(xs)\<close>.\<close>

fun join :: "string \<Rightarrow> string list \<Rightarrow> string" where
  "join sep [] = []"
| "join sep [x] = x"
| "join sep (x # y # ys) = x @ sep @ join sep (y # ys)"

text \<open>
  \<^verbatim>\<open>range(start, stop, step)\<close> for non-negative arguments and a positive step (the
  source's steps are the constants 1 and 16), as the list of its values.
\<close>

function range3 :: "nat \<Rightarrow> nat \<Rightarrow> nat \<Rightarrow> nat list" where
  "range3 start stop step =
     (if start < stop \<and> 0 < step then start # range3 (start + step) stop step else [])"
  by pat_completeness auto
termination
  by (relation "measure (\<lambda>(start, stop, step). stop - start)") auto

declare range3.simps [simp del]

subsection \<open>The emulator, the open file and the file system\<close>

text \<open>
  Modelled from the spec: the class \<^verbatim>\<open>QTEmulator\<close> of \<^verbatim>\<open>source/qt_emulator.py\<close>,
  which \<^verbatim>\<open>file_io.py\<close> imports and which is not in the sources. Sections 3 and 6 of
  the spec give its state: four memory segments, each an array of fixed-width unsigned
  cells, and six scalar unsigned registers. The attribute names are the ones
  \<^verbatim>\<open>create_memory_dump\<close> reads. A cell is a natural number; no claim depends on its
  width.
\<close>

record emulator =
  cache :: "nat list"
  stack :: "nat list"
  address_stack :: "nat list"
  ports :: "nat list"
  accumulator :: nat
  pointer_register :: nat
  program_counter :: nat
  flag_register :: nat
  stack_pointer :: nat
  address_stack_pointer :: nat

text \<open>
  \<^verbatim>\<open>_create_memory_dump(file, memory, section_name)\<close> receives two mutable objects by
  reference, the open text file and the array. Both are threaded through the model,
  so that a write to either would show in the result: \<open>stream\<close> is the text written
  to the file so far, \<open>memory\<close> the contents of the array.
\<close>

record dump_io =
  stream :: string
  memory :: "nat list"

text \<open>
  The state \<^verbatim>\<open>create_memory_dump\<close> works on: the emulator object and the file system,
  a map from paths to file contents.
\<close>

record world =
  emu :: emulator
  files :: "string \<rightharpoonup> string"

text \<open>A small emulator state, on which the model is run further down.\<close>

definition sample_emulator :: emulator where
  "sample_emulator =
     \<lparr>cache = [1, 2, 3, 65535, 0, 0, 0, 0, 0, 0, 0, 0, 0, 0, 0, 0, 17, 18], stack = [],
      address_stack = [7], ports = [0, 0], accumulator = 5, pointer_register = 0,
      program_counter = 12, flag_register = 1, stack_pointer = 0, address_stack_pointer = 1\<rparr>"

text \<open>\<^verbatim>\<open>file.write(s)\<close>: appends to the file and touches nothing else.\<close>

definition file_write :: "string \<Rightarrow> dump_io \<Rightarrow> dump_io" where
  "file_write s io = io\<lparr>stream := stream io @ s\<rparr>"

text \<open>
  \<^verbatim>\<open>open(path, "w", encoding="ASCII")\<close>: a new or truncated file, here paired with the
  array that is handed to the section writer together with it.
\<close>

definition open_w :: "nat list \<Rightarrow> dump_io" where
  "open_w array = \<lparr>stream = [], memory = array\<rparr>"

subsection \<open>The class \<^verbatim>\<open>QTEmulatorIO\<close>\<close>

text \<open>The class attributes, lines 48 to 52.\<close>

definition offset :: nat where
  "offset = 16"

definition index_offset :: nat where
  "index_offset = 4"

definition added_offset :: nat where
  "added_offset = 3"

definition number_offset :: nat where
  "number_offset = 5"

definition section_size :: nat where
  "section_size = offset * (number_offset + 1) + index_offset + added_offset"

text \<open>
  Lines 55 to 69, the class method \<^verbatim>\<open>_create_memory_dump\<close> (an Isabelle name cannot
  start with an underscore). \<^verbatim>\<open>len(memory)\<close> is read once, when the \<^verbatim>\<open>range\<close> of the
  second loop is built; the slice \<^verbatim>\<open>memory[index:index + cls.offset]\<close> is read in
  each iteration.
  \<^verbatim>\<open>
  file.write(f"{'[' + section_name.upper() + ' SECTION START]':=^{cls.section_size}}\n")
  file.write(" " * (cls.index_offset + cls.added_offset))
  for i in range(cls.offset):
      file.write(f"{i: {cls.number_offset}d} ")
  for index in range(0, len(memory), cls.offset):
      file.write(
          "\n" +
          f"{index:0{cls.index_offset}d} | " +
          " ".join(f"{val:0{cls.number_offset}d}" for val in memory[index:index + cls.offset]))
  file.write(f"\n{'[' + section_name.upper() + ' SECTION END]':=^{cls.section_size}}\n\n")
  \<close>
\<close>

definition private_create_memory_dump :: "string \<Rightarrow> dump_io \<Rightarrow> dump_io" where
  "private_create_memory_dump section_name io0 =
     (let io1 = file_write (format_center CHR ''='' section_size
                         (''['' @ upper section_name @ '' SECTION START]'') @ [newline]) io0;
          io2 = file_write (replicate (index_offset + added_offset) CHR '' '') io1;
          io3 = fold (\<lambda>i. file_write (format_space_d number_offset i @ '' ''))
                  (range3 0 offset 1) io2;
          io4 = fold (\<lambda>index io.
                   file_write ([newline] @ format_0d index_offset index @ '' | '' @
                          join '' '' (map (format_0d number_offset)
                                        (slice (memory io) index (index + offset)))) io)
                  (range3 0 (length (memory io3)) offset) io3
      in file_write ([newline] @ format_center CHR ''='' section_size
                         (''['' @ upper section_name @ '' SECTION END]'') @ [newline, newline]) io4)"

text \<open>
  Lines 72 to 93, the class method \<^verbatim>\<open>create_memory_dump\<close>. Each \<^verbatim>\<open>with\<close> block opens
  a file, writes it and closes it; after a section writer returns, the array it was
  given is stored back as the emulator's attribute, which is what sharing the object
  by reference amounts to. The register file is written from the six \<^verbatim>\<open>.item()\<close>
  values, which \<^verbatim>\<open>str\<close> formats in decimal.
\<close>

definition create_memory_dump :: "string \<Rightarrow> world \<Rightarrow> world" where
  "create_memory_dump filepath w0 =
     (let io = private_create_memory_dump ''CACHE'' (open_w (cache (emu w0)));
          w1 = w0\<lparr>emu := (emu w0)\<lparr>cache := memory io\<rparr>,
                  files := (files w0)(filepath @ ''.CACHE.dmp'' \<mapsto> stream io)\<rparr>;
          io = private_create_memory_dump ''STACK'' (open_w (stack (emu w1)));
          w2 = w1\<lparr>emu := (emu w1)\<lparr>stack := memory io\<rparr>,
                  files := (files w1)(filepath @ ''.STACK.dmp'' \<mapsto> stream io)\<rparr>;
          io = private_create_memory_dump ''ADDR_STACK'' (open_w (address_stack (emu w2)));
          w3 = w2\<lparr>emu := (emu w2)\<lparr>address_stack := memory io\<rparr>,
                  files := (files w2)(filepath @ ''.ADDR_STACK.dmp'' \<mapsto> stream io)\<rparr>;
          io = private_create_memory_dump ''PORTS'' (open_w (ports (emu w3)));
          w4 = w3\<lparr>emu := (emu w3)\<lparr>ports := memory io\<rparr>,
                  files := (files w3)(filepath @ ''.PORTS.dmp'' \<mapsto> stream io)\<rparr>;
          io = open_w [];
          io = file_write (format_center CHR ''='' section_size ''[REGISTER SECTION START]''
                 @ [newline]) io;
          io = file_write (format_left CHR '' '' 4 ''ACC'' @ '' = ''
                 @ decimal (accumulator (emu w4)) @ [newline]) io;
          io = file_write (format_left CHR '' '' 4 ''PR'' @ '' = ''
                 @ decimal (pointer_register (emu w4)) @ [newline]) io;
          io = file_write (format_left CHR '' '' 4 ''PC'' @ '' = ''
                 @ decimal (program_counter (emu w4)) @ [newline]) io;
          io = file_write (format_left CHR '' '' 4 ''FR'' @ '' = ''
                 @ decimal (flag_register (emu w4)) @ [newline]) io;
          io = file_write (format_left CHR '' '' 4 ''SP'' @ '' = ''
                 @ decimal (stack_pointer (emu w4)) @ [newline]) io;
          io = file_write (format_left CHR '' '' 4 ''ASP'' @ '' = ''
                 @ decimal (address_stack_pointer (emu w4)) @ [newline]) io;
          io = file_write (format_center CHR ''='' section_size ''[REGISTER SECTION END]''
                 @ [newline]) io
      in w4\<lparr>files := (files w4)(filepath @ ''.REGISTERS.dmp'' \<mapsto> stream io)\<rparr>)"

subsection \<open>Reading a dump back\<close>

text \<open>
  What a section file says about the array is stated through a reader of the dump
  format; it is not part of the sources. A decimal number is read digit by digit;
  the text is cut into lines; a row is a line with a \<^verbatim>\<open>|\<close>; the index of a row is the
  number before the first space, its cells are the numbers after \<^verbatim>\<open>"| "\<close>, separated
  by single spaces.
\<close>

definition digit_value :: "char \<Rightarrow> nat" where
  "digit_value c = length (takeWhile (\<lambda>d. d \<noteq> c) ''0123456789'')"

definition parse_decimal :: "string \<Rightarrow> nat" where
  "parse_decimal s = foldl (\<lambda>acc c. 10 * acc + digit_value c) 0 s"

fun split_on :: "char \<Rightarrow> string \<Rightarrow> string list" where
  "split_on c [] = [[]]"
| "split_on c (x # xs) =
     (if x = c then [] # split_on c xs
      else (case split_on c xs of
              [] \<Rightarrow> [[x]]
            | l # ls \<Rightarrow> (x # l) # ls))"

definition is_row :: "string \<Rightarrow> bool" where
  "is_row line = (CHR ''|'' \<in> set line)"

definition row_index :: "string \<Rightarrow> nat" where
  "row_index line = parse_decimal (takeWhile (\<lambda>c. c \<noteq> CHR '' '') line)"

definition row_cells :: "string \<Rightarrow> nat list" where
  "row_cells line =
     map parse_decimal (split_on CHR '' '' (drop 2 (dropWhile (\<lambda>c. c \<noteq> CHR ''|'') line)))"

definition dump_rows :: "string \<Rightarrow> (nat \<times> nat list) list" where
  "dump_rows text =
     map (\<lambda>line. (row_index line, row_cells line)) (filter is_row (split_on newline text))"

text \<open>
  A dump text emits an array in full and in increasing index order: the cells of
  its rows, read in the order of the text, are exactly the array; the row indices
  increase strictly; and the row with index \<open>i\<close> holds the cells \<open>i\<close> to \<open>i + 15\<close> (as
  far as they exist).
\<close>

definition emitted_in_order :: "string \<Rightarrow> nat list \<Rightarrow> bool" where
  "emitted_in_order text array =
     (concat (map snd (dump_rows text)) = array
      \<and> sorted_wrt (<) (map fst (dump_rows text))
      \<and> list_all (\<lambda>(index, cells). cells = slice array index (index + offset)) (dump_rows text))"


section \<open>Properties of the loader\<close>

subsection \<open>Bytes, the header loop and single steps of the decoding loop\<close>

lemma uint_byte_lt: "uint (b :: byte) < 256"
  using uint_lt2p [of b] by simp

lemma flag_bit: "uint (b :: byte) AND 1 = of_bool (bit b 0)"
proof -
  have "odd (uint b) = bit (uint b) 0"
    by (simp only: bit_0)
  also have "\<dots> = bit b 0"
    by (simp add: bit_uint_iff)
  finally show ?thesis
    by (simp add: and_one_eq mod_2_eq_odd)
qed

lemma decode_instruction_wide:
  "decode_instruction [b0, b1, b2, b3] = Inr (uint b0 AND 1, uint b1 * 256 + uint b2, uint b3)"
  by (simp add: decode_instruction_def subscript_def slice_def from_bytes_def)

lemma decode_instruction_short:
  "length raw < 4 \<Longrightarrow> decode_instruction raw = Inl IndexError"
  by (simp add: decode_instruction_def subscript_def)

lemma read_header_terminated:
  "0 \<notin> set ns' \<Longrightarrow> read_header (ns' @ 0 # rest) ns = Some (ns @ ns', rest)"
proof (induction ns' arbitrary: ns)
  case Nil
  show ?case by (subst read_header.simps) (simp add: read_def NUL_def)
next
  case (Cons b bs)
  then have "b \<noteq> 0" and "0 \<notin> set bs" by auto
  with Cons.IH [of "ns @ [b]"] show ?case
    by (subst read_header.simps) (simp add: read_def NUL_def)
qed

lemma read_header_needs_terminator:
  assumes "read_header bytes ns = Some r"
  shows "0 \<in> set bytes"
proof (rule read_header.raw_induct [where P = "\<lambda>bytes ns r. 0 \<in> set bytes", OF _ assms])
  fix rh :: "byte list \<Rightarrow> byte list \<Rightarrow> (byte list \<times> byte list) option"
  fix bs ns r
  assume IH: "\<And>bs ns r. rh bs ns = Some r \<Longrightarrow> 0 \<in> set bs"
    and step: "(case read 1 bs of (char, rest) \<Rightarrow>
        if char \<noteq> NUL then rh rest (ns @ char) else Some (ns, rest)) = Some r"
  show "0 \<in> set bs"
  proof (cases bs)
    case Nil
    with step have "rh [] ns = Some r"
      by (simp add: read_def NUL_def)
    from IH [OF this] show ?thesis by simp
  next
    case (Cons b bs')
    show ?thesis
    proof (cases "b = 0")
      case True
      with Cons show ?thesis by simp
    next
      case False
      with step Cons have "rh bs' (ns @ [b]) = Some r"
        by (simp add: read_def NUL_def)
      from IH [OF this] Cons show ?thesis by simp
    qed
  qed
qed

lemma load_terminated:
  "0 \<notin> set ns \<Longrightarrow> load (ns @ NUL @ body) = Some (decode_loop ns body [])"
  by (simp add: load_def NUL_def read_header_terminated)


lemma decode_loop_QT_step:
  "decode_loop QT (b0 # b1 # b2 # b3 # rest) acc =
     decode_loop QT rest (acc @ [(uint b0 AND 1, uint b1 * 256 + uint b2, uint b3)])"
  by (subst decode_loop.simps) (simp add: read_raw_instruction_def read_def decode_instruction_wide)

lemma decode_loop_QT_end: "decode_loop QT [] acc = Inr acc"
  by (subst decode_loop.simps) (simp add: read_raw_instruction_def read_def)

lemma decode_loop_QT_partial:
  "tail \<noteq> [] \<Longrightarrow> length tail < 4 \<Longrightarrow> decode_loop QT tail acc = Inl IndexError"
  by (subst decode_loop.simps) (simp add: read_raw_instruction_def read_def decode_instruction_short)

lemma decode_loop_QM_end: "decode_loop QM [] acc = Inr acc"
  by (subst decode_loop.simps) (simp add: read_raw_instruction_def read_def QT_def QM_def)

lemma decode_loop_QM_group:
  "body \<noteq> [] \<Longrightarrow> decode_loop QM body acc = Inl IndexError"
  by (subst decode_loop.simps) (simp add: read_raw_instruction_def read_def QT_def QM_def decode_instruction_short)

lemma decode_loop_unrecognized:
  "ns \<noteq> QT \<Longrightarrow> ns \<noteq> QM \<Longrightarrow> decode_loop ns body acc = Inl PyException"
  by (subst decode_loop.simps) (simp add: read_raw_instruction_def)


lemma byte_group_4_nth:
  assumes "4 * i + 3 < length body"
  shows "byte_group 4 body i = [body ! (4 * i), body ! (4 * i + 1), body ! (4 * i + 2), body ! (4 * i + 3)]"
proof -
  let ?n = "4 * i"
  have "drop ?n body = body ! ?n # drop (Suc ?n) body"
    using assms by (intro Cons_nth_drop_Suc [symmetric]) simp
  also have "drop (Suc ?n) body = body ! (Suc ?n) # drop (Suc (Suc ?n)) body"
    using assms by (intro Cons_nth_drop_Suc [symmetric]) simp
  also have "drop (Suc (Suc ?n)) body = body ! (Suc (Suc ?n)) # drop (Suc (Suc (Suc ?n))) body"
    using assms by (intro Cons_nth_drop_Suc [symmetric]) simp
  also have "drop (Suc (Suc (Suc ?n))) body =
      body ! (Suc (Suc (Suc ?n))) # drop (Suc (Suc (Suc (Suc ?n)))) body"
    using assms by (intro Cons_nth_drop_Suc [symmetric]) simp
  finally have "take 4 (drop ?n body) =
      [body ! ?n, body ! (Suc ?n), body ! (Suc (Suc ?n)), body ! (Suc (Suc (Suc ?n)))]"
    by (simp add: numeral_eq_Suc)
  moreover have "Suc ?n = ?n + 1" "Suc (Suc ?n) = ?n + 2" "Suc (Suc (Suc ?n)) = ?n + 3"
    by simp_all
  ultimately show ?thesis
    by (simp only: byte_group_def)
qed

lemma decode_loop_QT_body:
  "length body = 4 * k \<Longrightarrow>
     \<exists>instrs. length instrs = k
       \<and> (\<forall>i<k. decode_instruction (byte_group 4 body i) = Inr (instrs ! i))
       \<and> (\<forall>rest acc. decode_loop QT (body @ rest) acc = decode_loop QT rest (acc @ instrs))"
proof (induction k arbitrary: body)
  case 0
  then show ?case by simp
next
  case (Suc k)
  then have "length body = Suc (Suc (Suc (Suc (4 * k))))"
    by simp
  then obtain b0 b1 b2 b3 body' where body: "body = b0 # b1 # b2 # b3 # body'"
    and len: "length body' = 4 * k"
    by (auto simp: length_Suc_conv)
  from Suc.IH [OF len] obtain instrs' where l: "length instrs' = k"
    and d: "\<forall>i<k. decode_instruction (byte_group 4 body' i) = Inr (instrs' ! i)"
    and r: "\<forall>rest acc. decode_loop QT (body' @ rest) acc = decode_loop QT rest (acc @ instrs')"
    by blast
  define t where "t = (uint b0 AND 1, uint b1 * 256 + uint b2, uint b3)"
  have "length (t # instrs') = Suc k"
    using l by simp
  moreover have "\<forall>i<Suc k. decode_instruction (byte_group 4 body i) = Inr ((t # instrs') ! i)"
  proof (intro allI impI)
    fix i assume "i < Suc k"
    show "decode_instruction (byte_group 4 body i) = Inr ((t # instrs') ! i)"
    proof (cases i)
      case 0
      then show ?thesis
        by (simp add: body byte_group_def decode_instruction_wide t_def)
    next
      case (Suc j)
      with \<open>i < Suc k\<close> have "j < k" by simp
      moreover have "drop (4 * Suc j) body = drop (4 * j) (drop 4 body)"
        by (simp add: add.commute)
      then have "drop (4 * Suc j) body = drop (4 * j) body'"
        by (simp add: body)
      then have "byte_group 4 body (Suc j) = byte_group 4 body' j"
        by (simp only: byte_group_def)
      ultimately show ?thesis
        using d Suc by simp
    qed
  qed
  moreover have "\<forall>rest acc. decode_loop QT (body @ rest) acc = decode_loop QT rest (acc @ t # instrs')"
    using r by (simp add: body decode_loop_QT_step t_def)
  ultimately show ?case by blast
qed

lemma QT_no_terminator: "0 \<notin> set QT"
  by (simp add: QT_def)

lemma QM_no_terminator: "0 \<notin> set QM"
  by (simp add: QM_def)

lemma load_QT_complete:
  assumes "length body = 4 * k"
  shows "\<exists>instructions. load (QT @ NUL @ body) = Some (Inr instructions)
      \<and> length instructions = k
      \<and> (\<forall>i<k. decode_instruction (byte_group 4 body i) = Inr (instructions ! i))"
proof -
  from decode_loop_QT_body [OF assms] obtain instrs where l: "length instrs = k"
    and d: "\<forall>i<k. decode_instruction (byte_group 4 body i) = Inr (instrs ! i)"
    and r: "\<forall>rest acc. decode_loop QT (body @ rest) acc = decode_loop QT rest (acc @ instrs)"
    by blast
  from r have "decode_loop QT (body @ []) [] = decode_loop QT [] ([] @ instrs)"
    by blast
  then have "load (QT @ NUL @ body) = Some (Inr instrs)"
    by (simp add: load_terminated QT_no_terminator decode_loop_QT_end)
  with l d show ?thesis by blast
qed

lemma decode_loop_flag_byte:
  assumes "bit b0 0 = bit c0 0"
  shows "decode_loop QT (b0 # post) acc = decode_loop QT (c0 # post) acc"
proof (cases "length post < 3")
  case True
  then show ?thesis
    by (simp add: decode_loop_QT_partial)
next
  case False
  then have "Suc (Suc (Suc 0)) \<le> length post"
    by simp
  then obtain b1 b2 b3 rest where "post = b1 # b2 # b3 # rest"
    by (auto simp: Suc_le_length_iff)
  with assms show ?thesis
    by (simp add: decode_loop_QT_step flag_bit)
qed

subsection \<open>Ranges of the decoded fields\<close>

lemma from_bytes_slice_range: "0 \<le> from_bytes (slice raw 1 3) \<and> from_bytes (slice raw 1 3) < 2 ^ 16"
proof -
  have "length (slice raw 1 3) \<le> 2"
    by (simp add: slice_def)
  then consider "slice raw 1 3 = []" | b where "slice raw 1 3 = [b]"
    | b c where "slice raw 1 3 = [b, c]"
    by (auto simp: numeral_2_eq_2 le_Suc_eq length_Suc_conv)
  then show ?thesis
  proof cases
    case 1
    then show ?thesis by (simp add: from_bytes_def)
  next
    case 2
    then show ?thesis
      using uint_byte_lt [of b] by (simp add: from_bytes_def)
  next
    case 3
    then show ?thesis
      using uint_byte_lt [of b] uint_byte_lt [of c] uint_ge_0 [of b] uint_ge_0 [of c]
      by (simp add: from_bytes_def)
  qed
qed

lemma decode_instruction_range:
  assumes "decode_instruction raw = Inr (memory_flag, val, opcode)"
  shows "(memory_flag = 0 \<or> memory_flag = 1) \<and> 0 \<le> val \<and> val < 2 ^ 16 \<and> 0 \<le> opcode \<and> opcode < 2 ^ 8"
proof -
  from assms have m: "memory_flag = uint (raw ! 0) AND 1" and v: "val = from_bytes (slice raw 1 3)"
    and o: "opcode = uint (raw ! 3)"
    by (auto simp: decode_instruction_def subscript_def Let_def split: if_splits)
  have "memory_flag = 0 \<or> memory_flag = 1"
    unfolding m flag_bit by simp
  moreover have "0 \<le> opcode \<and> opcode < 2 ^ 8"
    unfolding o using uint_byte_lt [of "raw ! 3"] by simp
  ultimately show ?thesis
    using from_bytes_slice_range [of raw] v by simp
qed


lemma decode_loop_range:
  assumes "decode_loop ns bytes acc = Inr instructions"
    and "\<forall>(memory_flag, val, opcode) \<in> set acc.
      (memory_flag = 0 \<or> memory_flag = 1) \<and> 0 \<le> val \<and> val < 2 ^ 16 \<and> 0 \<le> opcode \<and> opcode < 2 ^ 8"
  shows "\<forall>(memory_flag, val, opcode) \<in> set instructions.
      (memory_flag = 0 \<or> memory_flag = 1) \<and> 0 \<le> val \<and> val < 2 ^ 16 \<and> 0 \<le> opcode \<and> opcode < 2 ^ 8"
  using assms
proof (induction ns bytes acc rule: decode_loop.induct)
  case (1 namespace bytes acc)
  from "1.prems"(1) obtain raw rest where rd: "read_raw_instruction namespace bytes = Inr (raw, rest)"
    by (subst (asm) decode_loop.simps) (auto split: sum.splits)
  show ?case
  proof (cases "raw = []")
    case True
    with "1.prems" rd show ?thesis
      by (subst (asm) decode_loop.simps) simp
  next
    case False
    with "1.prems"(1) rd obtain ins where dec: "decode_instruction raw = Inr ins"
      and loop: "decode_loop namespace rest (acc @ [ins]) = Inr instructions"
      by (subst (asm) decode_loop.simps) (auto split: sum.splits)
    obtain m v c where ins: "ins = (m, v, c)"
      by (cases ins)
    from decode_instruction_range [OF dec [unfolded ins]] "1.prems"(2)
    have "\<forall>(memory_flag, val, opcode) \<in> set (acc @ [ins]).
      (memory_flag = 0 \<or> memory_flag = 1) \<and> 0 \<le> val \<and> val < 2 ^ 16 \<and> 0 \<le> opcode \<and> opcode < 2 ^ 8"
      by (simp add: ins)
    from "1.IH" [OF rd refl False dec loop this] show ?thesis .
  qed
qed

lemma load_Some_Inr:
  assumes "load bytes = Some (Inr instructions)"
  obtains ns rest where "read_header bytes [] = Some (ns, rest)"
    and "decode_loop ns rest [] = Inr instructions"
  using assms by (auto simp: load_def split: option.splits)

subsection \<open>The narrow encoding\<close>

text \<open>
  With the header \<^verbatim>\<open>QM\<close> the read returns at most three bytes, and the subscript 3
  of line 37 is out of range for every group that is not empty: \<^verbatim>\<open>load\<close> returns a
  list only for an empty body.
\<close>

lemma load_QM:
  "load (QM @ NUL @ body) = Some (if body = [] then Inr [] else Inl IndexError)"
  by (simp add: load_terminated QM_no_terminator decode_loop_QM_end decode_loop_QM_group)

subsection \<open>Decoding what the wide encoder writes\<close>

text \<open>
  The loop body of \<^verbatim>\<open>load\<close> inverts the wide encoder on every instruction of the
  data model, not only on the one of the spec's test.
\<close>

lemma big_endian_bytes: "uint (ucast (drop_bit 8 val) :: byte) * 256 + uint (ucast val :: byte) = uint (val :: 16 word)"
proof -
  have "uint (ucast val :: byte) = uint val mod 256"
    by (simp add: unsigned_ucast_eq take_bit_eq_mod)
  moreover have "uint (ucast (drop_bit 8 val) :: byte) = uint val div 256"
  proof -
    have "uint (drop_bit 8 val) = uint val div 256"
      by (simp add: drop_bit_eq_div uint_div_distrib)
    moreover have "uint val < 65536"
      using uint_lt2p [of val] by simp
    ultimately have "uint (drop_bit 8 val) < 256"
      by simp
    moreover have "0 \<le> uint (drop_bit 8 val)"
      by (rule uint_ge_0)
    ultimately have "0 \<le> uint (drop_bit 8 val)" and "uint (drop_bit 8 val) < 256"
      by blast+
    then have "uint (drop_bit 8 val) mod 256 = uint (drop_bit 8 val)"
      by (rule mod_pos_pos_trivial)
    then show ?thesis
      using \<open>uint (drop_bit 8 val) = uint val div 256\<close>
      by (simp add: unsigned_ucast_eq take_bit_eq_mod)
  qed
  ultimately show ?thesis
    by simp
qed

lemma encode_wide_decode:
  "decode_instruction (encode_wide memory_flag val opcode) = Inr (of_bool memory_flag, uint val, uint opcode)"
  using big_endian_bytes [of val]
  by (cases memory_flag) (simp_all add: encode_wide_def decode_instruction_wide)

subsection \<open>The end of a wide file\<close>

text \<open>
  What the code does when a \<^verbatim>\<open>QT\<close> body of \<open>k\<close> complete groups is followed by fewer
  than 4 bytes: with no byte left the read is empty, the loop is left by \<^verbatim>\<open>break\<close> and
  the \<open>k\<close> instructions are returned; with 1 to 3 bytes left the read is not empty
  and the subscript 3 of line 37 is out of range.
\<close>

lemma load_end_of_file:
  assumes "length body = 4 * k" and "length tail < 4"
  shows "(if tail = []
          then \<exists>instructions. load (QT @ NUL @ body @ tail) = Some (Inr instructions)
                 \<and> length instructions = k
                 \<and> (\<forall>i<k. decode_instruction (byte_group 4 body i) = Inr (instructions ! i))
          else load (QT @ NUL @ body @ tail) = Some (Inl IndexError))
         \<and> load (QM @ NUL) = Some (Inr [])"
proof -
  have "load (QM @ NUL) = Some (Inr [])"
    using load_terminated [of QM "[]"] by (simp add: QM_no_terminator decode_loop_QM_end)
  moreover have "load (QT @ NUL @ body @ tail) = Some (Inl IndexError)" if "tail \<noteq> []"
  proof -
    from decode_loop_QT_body [OF assms(1)]
    obtain instrs where "decode_loop QT (body @ tail) [] = decode_loop QT tail ([] @ instrs)"
      by blast
    with that assms(2) show ?thesis
      by (simp add: load_terminated QT_no_terminator decode_loop_QT_partial)
  qed
  moreover have "\<exists>instructions. load (QT @ NUL @ body @ tail) = Some (Inr instructions)
      \<and> length instructions = k
      \<and> (\<forall>i<k. decode_instruction (byte_group 4 body i) = Inr (instructions ! i))" if "tail = []"
    using load_QT_complete [OF assms(1)] that by simp
  ultimately show ?thesis by simp
qed

lemma load_end_of_file_example:
  "length [1, 0, 5, 2 :: byte] = 4 * 1 \<and> length [9 :: byte] < 4
   \<and> load (QT @ NUL @ [1, 0, 5, 2] @ [9]) = Some (Inl IndexError)
   \<and> load (QM @ NUL) = Some (Inr [])"
  using load_end_of_file [of "[1, 0, 5, 2]" 1 "[9]"]
  by simp

subsection \<open>The claims about \<^verbatim>\<open>load\<close>\<close>

text \<open>
  C1. In a file with header \<^verbatim>\<open>QT\<close> whose body is \<open>k\<close> complete 4-byte groups, the
  \<open>i\<close>-th instruction that \<^verbatim>\<open>load\<close> returns is the triple
  \<^verbatim>\<open>(memory_flag, value, opcode)\<close> in which \<^verbatim>\<open>memory_flag\<close> is the least-significant
  bit of byte 0 of group \<open>i\<close>, \<^verbatim>\<open>value\<close> is the big-endian 16-bit integer of its bytes
  1 and 2, and \<^verbatim>\<open>opcode\<close> is its byte 3.
\<close>

theorem wide_decoding_layout:
  assumes "length body = 4 * k" and "i < k"
  shows "\<exists>instructions. load (QT @ NUL @ body) = Some (Inr instructions)
      \<and> length instructions = k
      \<and> instructions ! i =
          (of_bool (bit (body ! (4 * i)) 0),
           2 ^ 8 * uint (body ! (4 * i + 1)) + uint (body ! (4 * i + 2)),
           uint (body ! (4 * i + 3)))"
proof -
  from load_QT_complete [OF assms(1)] obtain instrs
    where ld: "load (QT @ NUL @ body) = Some (Inr instrs)" and l: "length instrs = k"
      and d: "\<forall>i<k. decode_instruction (byte_group 4 body i) = Inr (instrs ! i)"
    by blast
  from assms have "4 * i + 3 < length body"
    by simp
  then have g: "byte_group 4 body i =
      [body ! (4 * i), body ! (4 * i + 1), body ! (4 * i + 2), body ! (4 * i + 3)]"
    by (rule byte_group_4_nth)
  from d assms(2) have "decode_instruction (byte_group 4 body i) = Inr (instrs ! i)"
    by blast
  then have "instrs ! i =
      (uint (body ! (4 * i)) AND 1,
       uint (body ! (4 * i + 1)) * 256 + uint (body ! (4 * i + 2)),
       uint (body ! (4 * i + 3)))"
    unfolding g decode_instruction_wide by simp
  then have "instrs ! i =
      (of_bool (bit (body ! (4 * i)) 0),
       2 ^ 8 * uint (body ! (4 * i + 1)) + uint (body ! (4 * i + 2)),
       uint (body ! (4 * i + 3)))"
    by (simp add: flag_bit)
  with ld l show ?thesis by blast
qed

theorem wide_decoding_layout_witness:
  "length [3, 1, 44, 7, 0, 255, 254, 9 :: byte] = 4 * 2 \<and> (1 :: nat) < 2
   \<and> (\<exists>instructions. load (QT @ NUL @ [3, 1, 44, 7, 0, 255, 254, 9]) = Some (Inr instructions)
        \<and> length instructions = 2 \<and> instructions ! 1 = (0, 65534, 9))"
  using wide_decoding_layout [of "[3, 1, 44, 7, 0, 255, 254, 9]" 2 1]
  by simp

text \<open>
  C2 fails on the code: with header \<^verbatim>\<open>QT\<close>, one complete group and one further byte
  before end of file, fewer bytes remain than a group requires, yet \<^verbatim>\<open>load\<close> does
  not stop and return the instruction decoded so far. \<^verbatim>\<open>file.read(4)\<close> returns the
  single byte, which is not empty, so the test of line 32 does not leave the loop,
  and \<^verbatim>\<open>raw_instruction[3]\<close> in line 37 raises \<^verbatim>\<open>IndexError\<close>.
\<close>

theorem load_partial_group_raises:
  "load (QT @ NUL @ [1, 0, 5, 2] @ [9]) = Some (Inl IndexError)"
  by (simp add: load_terminated QT_no_terminator decode_loop_QT_step decode_loop_QT_partial)

text \<open>
  C3 fails on the code: with header \<^verbatim>\<open>QM\<close> and one complete 3-byte group,
  \<^verbatim>\<open>file.read(3)\<close> returns three bytes and \<^verbatim>\<open>raw_instruction[3]\<close> is out of range, so
  \<^verbatim>\<open>load\<close> raises \<^verbatim>\<open>IndexError\<close> and produces no instruction.
\<close>

theorem load_QM_group_raises:
  "load (QM @ NUL @ [1, 2, 3]) = Some (Inl IndexError)"
  by (simp add: load_terminated QM_no_terminator decode_loop_QM_group)

text \<open>
  C4. Encoding \<^verbatim>\<open>Instruction{memory_flag=true, value=300, opcode=7}\<close> into the wide
  4-byte form and decoding the group with the loop body of \<^verbatim>\<open>load\<close> yields the triple
  \<open>(1, 300, 7)\<close>; so does \<^verbatim>\<open>load\<close> on the file made of the header \<^verbatim>\<open>QT\<close>, the
  terminator and that group.
\<close>

theorem wide_round_trip:
  "decode_instruction (encode_wide True 300 7) = Inr (1, 300, 7)
   \<and> load (QT @ NUL @ encode_wide True 300 7) = Some (Inr [(1, 300, 7)])"
proof -
  have e: "encode_wide True 300 7 = [1, 1, 44, 7]"
    by (simp add: encode_wide_def)
  have "decode_loop QT ([1, 1, 44, 7] @ []) [] = Inr [(1, 300, 7)]"
    by (simp add: decode_loop_QT_step decode_loop_QT_end)
  then show ?thesis
    by (simp add: e decode_instruction_wide load_terminated QT_no_terminator)
qed

text \<open>
  C5. For a file made of the header \<^verbatim>\<open>QT\<close>, the terminator \<^verbatim>\<open>0x00\<close> and exactly
  \<open>4 * k\<close> further bytes, \<^verbatim>\<open>load\<close> returns a list of exactly \<open>k\<close> instructions, and
  for every \<open>i < k\<close> the \<open>i\<close>-th one is what the loop body decodes from the \<open>i\<close>-th
  4-byte group after the terminator.
\<close>

theorem load_QT_groups:
  assumes "length body = 4 * k"
  shows "\<exists>instructions. load (QT @ NUL @ body) = Some (Inr instructions)
      \<and> length instructions = k
      \<and> (\<forall>i<k. decode_instruction (byte_group 4 body i) = Inr (instructions ! i))"
  using assms by (rule load_QT_complete)

theorem load_QT_groups_witness:
  "length [3, 1, 44, 7, 0, 255, 254, 9 :: byte] = 4 * 2
   \<and> load (QT @ NUL @ [3, 1, 44, 7, 0, 255, 254, 9]) = Some (Inr [(1, 300, 7), (0, 65534, 9)])"
proof -
  from load_QT_groups [of "[3, 1, 44, 7, 0, 255, 254, 9]" 2]
  obtain instructions where ld: "load (QT @ NUL @ [3, 1, 44, 7, 0, 255, 254, 9]) = Some (Inr instructions)"
    and l: "length instructions = 2"
    and d: "\<forall>i<2. decode_instruction (byte_group 4 [3, 1, 44, 7, 0, 255, 254, 9] i) = Inr (instructions ! i)"
    by auto
  from d have "decode_instruction (byte_group 4 [3, 1, 44, 7, 0, 255, 254, 9] 0) = Inr (instructions ! 0)"
    and "decode_instruction (byte_group 4 [3, 1, 44, 7, 0, 255, 254, 9] 1) = Inr (instructions ! 1)"
    by simp_all
  then have "instructions ! 0 = (1, 300, 7)" and "instructions ! 1 = (0, 65534, 9)"
    by (simp_all add: byte_group_def decode_instruction_wide)
  with l have "instructions = [(1, 300, 7), (0, 65534, 9)]"
    by (intro nth_equalityI) (auto simp: less_Suc_eq numeral_2_eq_2)
  with ld show ?thesis by simp
qed

text \<open>
  C6. For a file whose null-terminated namespace header is neither \<^verbatim>\<open>QT\<close> nor
  \<^verbatim>\<open>QM\<close>, \<^verbatim>\<open>load\<close> raises the exception of line 31, whatever follows the header,
  and returns no instruction list.
\<close>

theorem load_unrecognized_header:
  assumes "0 \<notin> set namespace" and "namespace \<noteq> QT" and "namespace \<noteq> QM"
  shows "load (namespace @ NUL @ body) = Some (Inl PyException)"
  using assms by (simp add: load_terminated decode_loop_unrecognized)

theorem load_unrecognized_header_witness:
  "0 \<notin> set [0x51 :: byte] \<and> [0x51] \<noteq> QT \<and> [0x51] \<noteq> QM
   \<and> load ([0x51] @ NUL @ [3, 1, 44, 7]) = Some (Inl PyException)"
  using load_unrecognized_header [of "[0x51]" "[3, 1, 44, 7]"]
  by (simp add: QT_def QM_def)

text \<open>
  C7. Every tuple in a list returned by \<^verbatim>\<open>load\<close> satisfies the \<^verbatim>\<open>Instruction\<close> data
  model: \<^verbatim>\<open>memory_flag\<close> is 0 or 1, \<open>0 \<le> value < 2\<^sup>1\<^sup>6\<close> and
  \<open>0 \<le> opcode < 2\<^sup>8\<close>.
\<close>

theorem load_instructions_in_range:
  assumes "load bytes = Some (Inr instructions)"
    and "(memory_flag, val, opcode) \<in> set instructions"
  shows "(memory_flag = 0 \<or> memory_flag = 1) \<and> 0 \<le> val \<and> val < 2 ^ 16 \<and> 0 \<le> opcode \<and> opcode < 2 ^ 8"
proof -
  from assms(1) obtain ns rest where "decode_loop ns rest [] = Inr instructions"
    by (rule load_Some_Inr)
  from decode_loop_range [OF this] assms(2) show ?thesis
    by auto
qed

theorem load_instructions_in_range_witness:
  "load (QT @ NUL @ [3, 1, 44, 7]) = Some (Inr [(1, 300, 7)])
   \<and> (1, 300, 7) \<in> set [(1 :: int, 300 :: int, 7 :: int)]
   \<and> ((1 :: int) = 0 \<or> (1 :: int) = 1) \<and> (0 :: int) \<le> 300 \<and> (300 :: int) < 2 ^ 16
   \<and> (0 :: int) \<le> 7 \<and> (7 :: int) < 2 ^ 8"
proof -
  have "decode_loop QT ([3, 1, 44, 7] @ []) [] = Inr [(1, 300, 7)]"
    by (simp add: decode_loop_QT_step decode_loop_QT_end)
  then have ld: "load (QT @ NUL @ [3, 1, 44, 7]) = Some (Inr [(1, 300, 7)])"
    by (simp add: load_terminated QT_no_terminator)
  from load_instructions_in_range [OF ld, of 1 300 7] ld show ?thesis
    by simp
qed

text \<open>
  C9. \<^verbatim>\<open>load\<close> returns or raises only on files that contain a \<^verbatim>\<open>0x00\<close> byte: on a
  file with no such byte the header loop never exits and \<^verbatim>\<open>load\<close> does not
  terminate. Conversely it does terminate on every file that contains one.
\<close>

theorem load_diverges_iff: "load bytes = None \<longleftrightarrow> 0 \<notin> set bytes"
proof
  assume "load bytes = None"
  show "0 \<notin> set bytes"
  proof
    assume "0 \<in> set bytes"
    then obtain ns rest where "bytes = ns @ 0 # rest" and "0 \<notin> set ns"
      by (auto dest: split_list_first)
    then have "load bytes \<noteq> None"
      using load_terminated [of ns rest] by (simp add: NUL_def)
    with \<open>load bytes = None\<close> show False by simp
  qed
next
  assume "0 \<notin> set bytes"
  then have "read_header bytes [] = None"
    using read_header_needs_terminator [of bytes "[]"] by (cases "read_header bytes []") auto
  then show "load bytes = None"
    by (simp add: load_def)
qed

theorem load_diverges_iff_witness:
  "0 \<notin> set (QT @ [0x01, 0x2C, 0x07]) \<and> load (QT @ [0x01, 0x2C, 0x07]) = None
   \<and> 0 \<in> set (QT @ NUL) \<and> load (QT @ NUL) \<noteq> None"
  using load_diverges_iff [of "QT @ [0x01, 0x2C, 0x07]"] load_diverges_iff [of "QT @ NUL"]
  by (simp add: QT_def NUL_def)

text \<open>
  C10. Two wide groups that differ only in bits 1 to 7 of byte 0 decode to the same
  triple, and two \<^verbatim>\<open>QT\<close> files that differ only in those bits of the first byte of
  one group have the same outcome under \<^verbatim>\<open>load\<close>.
\<close>

theorem load_ignores_upper_flag_bits:
  assumes "bit b0 0 = bit c0 0" and "length pre = 4 * k"
  shows "decode_instruction [b0, b1, b2, b3] = decode_instruction [c0, b1, b2, b3]
     \<and> load (QT @ NUL @ pre @ b0 # post) = load (QT @ NUL @ pre @ c0 # post)"
proof -
  from decode_loop_QT_body [OF assms(2)]
  obtain instrs where "\<forall>rest acc. decode_loop QT (pre @ rest) acc = decode_loop QT rest (acc @ instrs)"
    by blast
  then have "decode_loop QT (pre @ b0 # post) [] = decode_loop QT (b0 # post) ([] @ instrs)"
    and "decode_loop QT (pre @ c0 # post) [] = decode_loop QT (c0 # post) ([] @ instrs)"
    by blast+
  with decode_loop_flag_byte [OF assms(1)]
  have "load (QT @ NUL @ pre @ b0 # post) = load (QT @ NUL @ pre @ c0 # post)"
    by (simp add: load_terminated QT_no_terminator)
  with assms(1) show ?thesis
    by (simp add: decode_instruction_wide flag_bit)
qed

theorem load_ignores_upper_flag_bits_witness:
  "bit (0x01 :: byte) 0 = bit (0xFF :: byte) 0 \<and> length [0, 0, 1, 2 :: byte] = 4 * 1
   \<and> decode_instruction [0x01, 1, 44, 7] = Inr (1, 300, 7)
   \<and> decode_instruction [0xFF, 1, 44, 7] = Inr (1, 300, 7)
   \<and> load (QT @ NUL @ [0, 0, 1, 2] @ 0x01 # [1, 44, 7]) = Some (Inr [(0, 1, 2), (1, 300, 7)])
   \<and> load (QT @ NUL @ [0, 0, 1, 2] @ 0xFF # [1, 44, 7]) = Some (Inr [(0, 1, 2), (1, 300, 7)])"
proof -
  have "decode_loop QT ([0, 0, 1, 2, 0x01, 1, 44, 7] @ []) [] = Inr [(0, 1, 2), (1, 300, 7)]"
    by (simp add: decode_loop_QT_step decode_loop_QT_end)
  then have "load (QT @ NUL @ [0, 0, 1, 2] @ 0x01 # [1, 44, 7]) = Some (Inr [(0, 1, 2), (1, 300, 7)])"
    by (simp add: load_terminated QT_no_terminator)
  with load_ignores_upper_flag_bits [of "0x01" "0xFF" "[0, 0, 1, 2]" 1 1 44 7 "[1, 44, 7]"]
  show ?thesis
    by (simp add: decode_instruction_wide)
qed

section \<open>Properties of the dump writer\<close>

subsection \<open>Writes leave the array alone\<close>

lemma memory_file_write: "memory (file_write s io) = memory io"
  by (simp add: file_write_def)

lemma stream_file_write: "stream (file_write s io) = stream io @ s"
  by (simp add: file_write_def)

lemma memory_fold_write:
  "memory (fold (\<lambda>i io. file_write (g io i) io) xs io) = memory io"
  by (induction xs arbitrary: io) (simp_all add: memory_file_write)

lemma stream_fold_write:
  "stream (fold (\<lambda>i io. file_write (g (memory io) i) io) xs io) =
     stream io @ concat (map (g (memory io)) xs)"
  by (induction xs arbitrary: io) (simp_all add: memory_file_write stream_file_write)

lemma private_create_memory_dump_memory:
  "memory (private_create_memory_dump section_name io) = memory io"
  by (simp add: private_create_memory_dump_def Let_def memory_file_write memory_fold_write)

lemma private_create_memory_dump_stream:
  "stream (private_create_memory_dump section_name io) =
     stream io
     @ format_center CHR ''='' section_size (''['' @ upper section_name @ '' SECTION START]'')
     @ newline # (replicate (index_offset + added_offset) CHR '' ''
                  @ concat (map (\<lambda>i. format_space_d number_offset i @ '' '') (range3 0 offset 1)))
     @ concat (map (\<lambda>index. newline # (format_0d index_offset index @ '' | '' @
                 join '' '' (map (format_0d number_offset) (slice (memory io) index (index + offset)))))
               (range3 0 (length (memory io)) offset))
     @ newline # format_center CHR ''='' section_size (''['' @ upper section_name @ '' SECTION END]'')
     @ [newline, newline]"
proof -
  define io1 where "io1 = file_write (format_center CHR ''='' section_size
      (''['' @ upper section_name @ '' SECTION START]'') @ [newline]) io"
  define io2 where "io2 = file_write (replicate (index_offset + added_offset) CHR '' '') io1"
  define io3 where "io3 = fold (\<lambda>i. file_write (format_space_d number_offset i @ '' ''))
      (range3 0 offset 1) io2"
  define io4 where "io4 = fold (\<lambda>index io.
      file_write ([newline] @ format_0d index_offset index @ '' | '' @
        join '' '' (map (format_0d number_offset) (slice (memory io) index (index + offset)))) io)
      (range3 0 (length (memory io3)) offset) io3"
  have m3: "memory io3 = memory io"
    unfolding io3_def io2_def io1_def
    using memory_fold_write [of "\<lambda>io i. format_space_d number_offset i @ '' ''"]
    by (simp add: memory_file_write)
  have s3: "stream io3 = stream io2
      @ concat (map (\<lambda>i. format_space_d number_offset i @ '' '') (range3 0 offset 1))"
    unfolding io3_def
    using stream_fold_write [of "\<lambda>m i. format_space_d number_offset i @ '' ''"]
    by simp
  have s4: "stream io4 = stream io3
      @ concat (map (\<lambda>index. [newline] @ format_0d index_offset index @ '' | '' @
          join '' '' (map (format_0d number_offset) (slice (memory io3) index (index + offset))))
        (range3 0 (length (memory io3)) offset))"
    unfolding io4_def
    by (rule stream_fold_write [of "\<lambda>m index. [newline] @ format_0d index_offset index @ '' | '' @
          join '' '' (map (format_0d number_offset) (slice m index (index + offset)))"])
  have "private_create_memory_dump section_name io =
      file_write ([newline] @ format_center CHR ''='' section_size
        (''['' @ upper section_name @ '' SECTION END]'') @ [newline, newline]) io4"
    by (simp add: private_create_memory_dump_def Let_def io1_def io2_def io3_def io4_def)
  then show ?thesis
    by (simp add: stream_file_write s4 s3 m3 io2_def io1_def)
qed

subsection \<open>Decimal numbers\<close>

lemma digit_in_digits: "d < 10 \<Longrightarrow> digit d \<in> set ''0123456789''"
  unfolding digit_def by (rule nth_mem) simp

lemma decimal_digits: "set (decimal n) \<subseteq> set ''0123456789''"
proof (induction n rule: decimal.induct)
  case (1 n)
  show ?case
  proof (cases "n < 10")
    case True
    then show ?thesis
      using digit_in_digits [of n] by (subst decimal.simps) simp
  next
    case False
    with "1.IH" digit_in_digits [of "n mod 10"] show ?thesis
      by (subst decimal.simps) simp
  qed
qed

lemma decimal_nonempty: "decimal n \<noteq> []"
  by (subst decimal.simps) simp

lemma format_0d_digits: "set (format_0d width n) \<subseteq> set ''0123456789''"
  using decimal_digits [of n] by (auto simp: format_0d_def Let_def)

lemma format_0d_nonempty: "format_0d width n \<noteq> []"
  by (simp add: format_0d_def Let_def decimal_nonempty)

lemma digit_value_digit: "d < 10 \<Longrightarrow> digit_value (digit d) = d"
proof -
  assume "d < 10"
  then consider "d = 0" | "d = 1" | "d = 2" | "d = 3" | "d = 4" | "d = 5" | "d = 6"
    | "d = 7" | "d = 8" | "d = 9"
    by atomize_elim arith
  then show ?thesis
    by cases (simp_all add: digit_value_def digit_def)
qed

lemma parse_decimal_snoc: "parse_decimal (s @ [c]) = 10 * parse_decimal s + digit_value c"
  by (simp add: parse_decimal_def)

lemma parse_decimal_decimal: "parse_decimal (decimal n) = n"
proof (induction n rule: decimal.induct)
  case (1 n)
  show ?case
  proof (cases "n < 10")
    case True
    then show ?thesis
      by (subst decimal.simps) (simp add: parse_decimal_def digit_value_digit)
  next
    case False
    with "1.IH" show ?thesis
      by (subst decimal.simps) (simp add: parse_decimal_snoc digit_value_digit)
  qed
qed

lemma parse_decimal_zeros: "parse_decimal (replicate k CHR ''0'' @ s) = parse_decimal s"
proof -
  have z: "digit_value CHR ''0'' = 0"
    by (simp add: digit_value_def)
  have "foldl (\<lambda>acc c. 10 * acc + digit_value c) 0 (replicate k CHR ''0'') = 0"
    by (induction k) (simp_all add: z)
  then show ?thesis
    by (simp add: parse_decimal_def)
qed

lemma parse_decimal_format_0d: "parse_decimal (format_0d width n) = n"
  by (simp add: format_0d_def Let_def parse_decimal_zeros parse_decimal_decimal)

subsection \<open>Lines, tokens and ranges\<close>

lemma split_on_nonempty: "split_on c s \<noteq> []"
  by (induction s) (simp_all split: list.splits)

lemma split_on_no_separator: "c \<notin> set a \<Longrightarrow> split_on c a = [a]"
  by (induction a) auto

lemma split_on_separator:
  "c \<notin> set a \<Longrightarrow> split_on c (a @ c # rest) = a # split_on c rest"
  by (induction a) auto

lemma split_on_lines:
  assumes "c \<notin> set a" and "\<forall>x \<in> set xs. c \<notin> set (f x)"
  shows "split_on c (a @ concat (map (\<lambda>x. c # f x) xs) @ c # rest) = a # map f xs @ split_on c rest"
  using assms
proof (induction xs arbitrary: a)
  case Nil
  then show ?case by (simp add: split_on_separator)
next
  case (Cons x xs)
  from Cons.prems have "c \<notin> set (f x)" and "\<forall>y \<in> set xs. c \<notin> set (f y)"
    by simp_all
  from Cons.IH [OF this]
  have "split_on c (f x @ concat (map (\<lambda>x. c # f x) xs) @ c # rest) = f x # map f xs @ split_on c rest" .
  with Cons.prems(1) show ?case
    by (simp add: split_on_separator)
qed

lemma split_on_join:
  assumes "tokens \<noteq> []" and "\<forall>t \<in> set tokens. c \<notin> set t"
  shows "split_on c (join [c] tokens) = tokens"
  using assms
proof (induction "[c]" tokens rule: join.induct)
  case 1
  then show ?case by simp
next
  case (2 x)
  then show ?case by (simp add: split_on_no_separator)
next
  case (3 x y ys)
  then show ?case by (simp add: split_on_separator)
qed

lemma range3_bounds: "index \<in> set (range3 start stop step) \<Longrightarrow> start \<le> index \<and> index < stop"
proof (induction start stop step rule: range3.induct)
  case (1 start stop step)
  from "1.prems" have c: "start < stop \<and> 0 < step"
    by (subst (asm) range3.simps) (simp split: if_splits)
  with "1.prems" have "index = start \<or> index \<in> set (range3 (start + step) stop step)"
    by (subst (asm) range3.simps) simp
  with "1.IH" c show ?case
    by auto
qed

lemma range3_increasing: "sorted_wrt (<) (range3 start stop step)"
proof (induction start stop step rule: range3.induct)
  case (1 start stop step)
  show ?case
  proof (cases "start < stop \<and> 0 < step")
    case True
    then have "range3 start stop step = start # range3 (start + step) stop step"
      by (subst range3.simps) simp
    moreover have "\<forall>index \<in> set (range3 (start + step) stop step). start < index"
      using range3_bounds [of _ "start + step" stop step] True by fastforce
    ultimately show ?thesis
      using "1.IH" [OF True] by simp
  next
    case False
    then have "range3 start stop step = []"
      by (subst range3.simps) auto
    then show ?thesis by simp
  qed
qed

lemma slices_cover:
  "0 < step \<Longrightarrow>
   concat (map (\<lambda>index. slice array index (index + step)) (range3 start (length array) step)) =
     drop start array"
proof (induction start "length array" step rule: range3.induct)
  case (1 start step)
  show ?case
  proof (cases "start < length array")
    case True
    have "slice array start (start + step) = take step (drop start array)"
      by (simp add: slice_def drop_take)
    moreover have "drop (start + step) array = drop step (drop start array)"
      by (simp add: add.commute)
    ultimately have "slice array start (start + step) @ drop (start + step) array = drop start array"
      by (simp only: append_take_drop_id)
    moreover from True 1 have "range3 start (length array) step = start # range3 (start + step) (length array) step"
      by (subst range3.simps) simp
    ultimately show ?thesis
      using "1.hyps" [OF _ "1.prems"] True "1.prems" by simp
  next
    case False
    then have "range3 start (length array) step = []"
      by (subst range3.simps) auto
    with False show ?thesis by simp
  qed
qed

subsection \<open>The characters of the formatted fields\<close>

lemma join_chars: "set (join sep xs) \<subseteq> set sep \<union> (\<Union>x \<in> set xs. set x)"
  by (induction sep xs rule: join.induct) auto

lemma digits_plain:
  "c \<in> set ''0123456789'' \<Longrightarrow> c \<noteq> newline \<and> c \<noteq> CHR ''|'' \<and> c \<noteq> CHR '' ''"
  by (auto simp: newline_def)

lemma format_0d_plain:
  "c \<in> set (format_0d width n) \<Longrightarrow> c \<noteq> newline \<and> c \<noteq> CHR ''|'' \<and> c \<noteq> CHR '' ''"
  using format_0d_digits [of width n] digits_plain [of c] by blast

lemma format_space_d_plain:
  assumes "c \<in> set (format_space_d width n)"
  shows "c \<noteq> newline \<and> c \<noteq> CHR ''|''"
proof -
  from assms have "c = CHR '' '' \<or> c \<in> set (decimal n)"
    by (auto simp: format_space_d_def Let_def)
  then show ?thesis
  proof
    assume "c = CHR '' ''"
    then show ?thesis by (simp add: newline_def)
  next
    assume "c \<in> set (decimal n)"
    with decimal_digits [of n] have "c \<in> set ''0123456789''"
      by (rule_tac subsetD)
    then show ?thesis
      by (simp add: digits_plain)
  qed
qed

lemma format_center_chars: "set (format_center fill width s) \<subseteq> insert fill (set s)"
  by (auto simp: format_center_def Let_def)

lemma cells_text_split:
  assumes "cells \<noteq> []"
  shows "map parse_decimal (split_on CHR '' '' (join '' '' (map (format_0d width) cells))) = cells"
proof -
  have "split_on CHR '' '' (join [CHR '' ''] (map (format_0d width) cells)) = map (format_0d width) cells"
    using assms format_0d_plain by (intro split_on_join) auto
  then show ?thesis
    by (simp add: comp_def parse_decimal_format_0d)
qed

lemma row_text_parse:
  fixes w1 w2 index :: nat
  assumes "cells \<noteq> []"
  defines "line \<equiv> format_0d w1 index @ '' | '' @ join '' '' (map (format_0d w2) cells)"
  shows "is_row line" and "row_index line = index" and "row_cells line = cells"
    and "newline \<notin> set line"
proof -
  show "is_row line"
    by (simp add: is_row_def line_def)
  have "takeWhile (\<lambda>c. c \<noteq> CHR '' '') line = format_0d w1 index"
    unfolding line_def using format_0d_plain [of _ w1 index]
    by (subst takeWhile_append2) auto
  then show "row_index line = index"
    by (simp add: row_index_def parse_decimal_format_0d)
  have "dropWhile (\<lambda>c. c \<noteq> CHR ''|'') line = ''| '' @ join '' '' (map (format_0d w2) cells)"
    unfolding line_def using format_0d_plain [of _ w1 index]
    by (subst dropWhile_append2) auto
  then show "row_cells line = cells"
    using cells_text_split [OF assms(1), of w2] by (simp add: row_cells_def)
  have "set (join '' '' (map (format_0d w2) cells)) \<subseteq> set '' '' \<union> (\<Union>x \<in> set (map (format_0d w2) cells). set x)"
    by (rule join_chars)
  moreover have "newline \<notin> set '' ''"
    by (simp add: newline_def)
  moreover have "newline \<notin> (\<Union>x \<in> set (map (format_0d w2) cells). set x)"
    using format_0d_plain by fastforce
  ultimately have "newline \<notin> set (join '' '' (map (format_0d w2) cells))"
    by blast
  moreover have "newline \<notin> set (format_0d w1 index)"
    using format_0d_plain [of newline w1 index] by blast
  moreover have "newline \<notin> set '' | ''"
    by (simp add: newline_def)
  ultimately show "newline \<notin> set line"
    unfolding line_def by simp
qed

lemma slice_nonempty: "index < length array \<Longrightarrow> 0 < step \<Longrightarrow> slice array index (index + step) \<noteq> []"
  by (simp add: slice_def)

lemma header_line_plain:
  assumes "newline \<notin> set (upper section_name)" and "CHR ''|'' \<notin> set (upper section_name)"
  shows "newline \<notin> set (format_center CHR ''='' width (''['' @ upper section_name @ suffix))
      \<longleftrightarrow> newline \<notin> set suffix"
    and "is_row (format_center CHR ''='' width (''['' @ upper section_name @ suffix))
      \<longleftrightarrow> CHR ''|'' \<in> set suffix"
  using assms by (auto simp: format_center_def Let_def is_row_def newline_def)

lemma column_line_plain:
  defines "line \<equiv> replicate (index_offset + added_offset) CHR '' ''
      @ concat (map (\<lambda>i. format_space_d number_offset i @ '' '') (range3 0 offset 1))"
  shows "newline \<notin> set line" and "\<not> is_row line"
proof -
  have "c \<in> set line \<Longrightarrow> c \<noteq> newline \<and> c \<noteq> CHR ''|''" for c
  proof -
    assume "c \<in> set line"
    then have "c = CHR '' '' \<or> (\<exists>i. c \<in> set (format_space_d number_offset i))"
      by (auto simp: line_def split: if_splits)
    then show "c \<noteq> newline \<and> c \<noteq> CHR ''|''"
    proof
      assume "c = CHR '' ''"
      then show ?thesis by (simp add: newline_def)
    next
      assume "\<exists>i. c \<in> set (format_space_d number_offset i)"
      then show ?thesis
        using format_space_d_plain by blast
    qed
  qed
  then show "newline \<notin> set line" and "\<not> is_row line"
    unfolding is_row_def by blast+
qed

subsection \<open>Reading back what a section writer wrote\<close>

lemma dump_rows_private_create_memory_dump:
  assumes "newline \<notin> set (upper section_name)" and "CHR ''|'' \<notin> set (upper section_name)"
  shows "dump_rows (stream (private_create_memory_dump section_name (open_w array))) =
     map (\<lambda>index. (index, slice array index (index + offset))) (range3 0 (length array) offset)"
proof -
  define first_line where "first_line =
    format_center CHR ''='' section_size (''['' @ upper section_name @ '' SECTION START]'')"
  define last_line where "last_line =
    format_center CHR ''='' section_size (''['' @ upper section_name @ '' SECTION END]'')"
  define column_line where "column_line = replicate (index_offset + added_offset) CHR '' ''
      @ concat (map (\<lambda>i. format_space_d number_offset i @ '' '') (range3 0 offset 1))"
  define row where "row = (\<lambda>index. format_0d index_offset index @ '' | '' @
      join '' '' (map (format_0d number_offset) (slice array index (index + offset))))"
  define indices where "indices = range3 0 (length array) offset"
  have txt_eq: "stream (private_create_memory_dump section_name (open_w array)) =
      first_line @ newline # (column_line @ concat (map (\<lambda>index. newline # row index) indices)
        @ newline # (last_line @ newline # [newline]))"
    by (simp add: private_create_memory_dump_stream open_w_def first_line_def last_line_def
        column_line_def row_def indices_def)
  have first: "newline \<notin> set first_line" "\<not> is_row first_line"
    unfolding first_line_def using header_line_plain [OF assms] by (simp_all add: newline_def)
  have last: "newline \<notin> set last_line" "\<not> is_row last_line"
    unfolding last_line_def using header_line_plain [OF assms] by (simp_all add: newline_def)
  have column: "newline \<notin> set column_line" "\<not> is_row column_line"
    unfolding column_line_def by (rule column_line_plain)+
  have rows: "is_row (row index) \<and> row_index (row index) = index
      \<and> row_cells (row index) = slice array index (index + offset) \<and> newline \<notin> set (row index)"
    if "index \<in> set indices" for index
  proof -
    from that have "index < length array"
      unfolding indices_def by (auto dest: range3_bounds)
    then have "slice array index (index + offset) \<noteq> []"
      by (rule slice_nonempty) (simp add: offset_def)
    from row_text_parse [OF this, of index_offset index number_offset] show ?thesis
      unfolding row_def by blast
  qed
  have "split_on newline (last_line @ newline # [newline]) = [last_line, [], []]"
    using last(1) by (simp add: split_on_separator)
  moreover have "split_on newline (column_line @ concat (map (\<lambda>index. newline # row index) indices)
        @ newline # (last_line @ newline # [newline])) =
      column_line # map row indices @ split_on newline (last_line @ newline # [newline])"
    using column(1) rows by (intro split_on_lines) auto
  ultimately have lines: "split_on newline (stream (private_create_memory_dump section_name (open_w array))) =
      first_line # column_line # map row indices @ [last_line, [], []]"
    unfolding txt_eq using first(1) by (simp add: split_on_separator)
  have "filter is_row (map row indices) = map row indices"
    using rows by (simp add: filter_id_conv)
  then have "filter is_row (split_on newline (stream (private_create_memory_dump section_name (open_w array)))) =
      map row indices"
    unfolding lines using first(2) column(2) last(2) by (simp add: is_row_def)
  then have "dump_rows (stream (private_create_memory_dump section_name (open_w array))) =
      map (\<lambda>index. (row_index (row index), row_cells (row index))) indices"
    by (simp add: dump_rows_def comp_def)
  also have "\<dots> = map (\<lambda>index. (index, slice array index (index + offset))) indices"
    using rows by (intro map_cong) simp_all
  finally show ?thesis
    unfolding indices_def .
qed

lemma emitted_in_order_private_create_memory_dump:
  assumes "newline \<notin> set (upper section_name)" and "CHR ''|'' \<notin> set (upper section_name)"
  shows "emitted_in_order (stream (private_create_memory_dump section_name (open_w array))) array"
proof -
  let ?rows = "map (\<lambda>index. (index, slice array index (index + offset))) (range3 0 (length array) offset)"
  have "concat (map snd ?rows) = array"
    using slices_cover [of offset array 0] by (simp add: comp_def offset_def)
  moreover have "sorted_wrt (<) (map fst ?rows)"
    using range3_increasing [of 0 "length array" offset] by (simp add: comp_def)
  moreover have "list_all (\<lambda>(index, cells). cells = slice array index (index + offset)) ?rows"
    by (simp add: list_all_iff)
  ultimately show ?thesis
    unfolding emitted_in_order_def dump_rows_private_create_memory_dump [OF assms] by blast
qed

lemma section_names_plain:
  "newline \<notin> set (upper ''CACHE'')" "CHR ''|'' \<notin> set (upper ''CACHE'')"
  "newline \<notin> set (upper ''STACK'')" "CHR ''|'' \<notin> set (upper ''STACK'')"
  "newline \<notin> set (upper ''ADDR_STACK'')" "CHR ''|'' \<notin> set (upper ''ADDR_STACK'')"
  "newline \<notin> set (upper ''PORTS'')" "CHR ''|'' \<notin> set (upper ''PORTS'')"
  by (simp_all add: upper_def upper_char_def newline_def)

lemma create_memory_dump_emu: "emu (create_memory_dump filepath w) = emu w"
  by (simp add: create_memory_dump_def Let_def private_create_memory_dump_memory open_w_def)

lemma create_memory_dump_files:
  "files (create_memory_dump filepath w) (filepath @ ''.CACHE.dmp'') =
     Some (stream (private_create_memory_dump ''CACHE'' (open_w (cache (emu w)))))"
  "files (create_memory_dump filepath w) (filepath @ ''.STACK.dmp'') =
     Some (stream (private_create_memory_dump ''STACK'' (open_w (stack (emu w)))))"
  "files (create_memory_dump filepath w) (filepath @ ''.ADDR_STACK.dmp'') =
     Some (stream (private_create_memory_dump ''ADDR_STACK'' (open_w (address_stack (emu w)))))"
  "files (create_memory_dump filepath w) (filepath @ ''.PORTS.dmp'') =
     Some (stream (private_create_memory_dump ''PORTS'' (open_w (ports (emu w)))))"
  by (simp_all add: create_memory_dump_def Let_def private_create_memory_dump_memory open_w_def)

lemma dump_rows_example:
  "dump_rows (stream (private_create_memory_dump ''CACHE''
     (open_w [1, 2, 3, 65535, 0, 0, 0, 0, 0, 0, 0, 0, 0, 0, 0, 0, 17, 18]))) =
   [(0, [1, 2, 3, 65535, 0, 0, 0, 0, 0, 0, 0, 0, 0, 0, 0, 0]), (16, [17, 18])]"
  by (simp add: dump_rows_private_create_memory_dump section_names_plain range3.simps
      slice_def offset_def)

lemma first_line_example:
  "format_center CHR ''='' section_size (''['' @ upper ''ports'' @ '' SECTION START]'') =
   ''=========================================[PORTS SECTION START]=========================================''"
  by code_simp

lemma column_line_example:
  "replicate (index_offset + added_offset) CHR '' ''
     @ concat (map (\<lambda>i. format_space_d number_offset i @ '' '') (range3 0 offset 1)) =
   ''           0     1     2     3     4     5     6     7     8     9    10    11    12    13    14    15 ''"
  by code_simp

subsection \<open>The claim about the dump writer\<close>

text \<open>
  C8. The dump writer only reads the emulator: after \<^verbatim>\<open>create_memory_dump\<close> the
  emulator state (every cell of \<^verbatim>\<open>cache\<close>, \<^verbatim>\<open>stack\<close>, \<^verbatim>\<open>address_stack\<close> and
  \<^verbatim>\<open>ports\<close>, and each of the six registers) equals the state before the call, and
  \<^verbatim>\<open>_create_memory_dump\<close> returns the array it was given unchanged, for every section
  name and every file. Each of the four segment files holds the full contents of
  its segment in increasing index order.
\<close>

theorem create_memory_dump_reads_only:
  "emu (create_memory_dump filepath w) = emu w
   \<and> memory (private_create_memory_dump section_name io) = memory io
   \<and> (\<exists>text. files (create_memory_dump filepath w) (filepath @ ''.CACHE.dmp'') = Some text
         \<and> emitted_in_order text (cache (emu w)))
   \<and> (\<exists>text. files (create_memory_dump filepath w) (filepath @ ''.STACK.dmp'') = Some text
         \<and> emitted_in_order text (stack (emu w)))
   \<and> (\<exists>text. files (create_memory_dump filepath w) (filepath @ ''.ADDR_STACK.dmp'') = Some text
         \<and> emitted_in_order text (address_stack (emu w)))
   \<and> (\<exists>text. files (create_memory_dump filepath w) (filepath @ ''.PORTS.dmp'') = Some text
         \<and> emitted_in_order text (ports (emu w)))"
  by (simp add: create_memory_dump_emu private_create_memory_dump_memory create_memory_dump_files
      emitted_in_order_private_create_memory_dump section_names_plain)

theorem create_memory_dump_reads_only_witness:
  "emu (create_memory_dump ''out'' \<lparr>emu = sample_emulator, files = Map.empty\<rparr>) = sample_emulator
   \<and> (\<exists>text. files (create_memory_dump ''out'' \<lparr>emu = sample_emulator, files = Map.empty\<rparr>)
           ''out.CACHE.dmp'' = Some text
         \<and> emitted_in_order text [1, 2, 3, 65535, 0, 0, 0, 0, 0, 0, 0, 0, 0, 0, 0, 0, 17, 18]
         \<and> dump_rows text = [(0, [1, 2, 3, 65535, 0, 0, 0, 0, 0, 0, 0, 0, 0, 0, 0, 0]), (16, [17, 18])])
   \<and> (\<exists>text. files (create_memory_dump ''out'' \<lparr>emu = sample_emulator, files = Map.empty\<rparr>)
           ''out.STACK.dmp'' = Some text
         \<and> emitted_in_order text [] \<and> dump_rows text = [])"
proof -
  let ?w = "\<lparr>emu = sample_emulator, files = Map.empty\<rparr>"
  have c: "cache sample_emulator = [1, 2, 3, 65535, 0, 0, 0, 0, 0, 0, 0, 0, 0, 0, 0, 0, 17, 18]"
    and s: "stack sample_emulator = []"
    by (simp_all add: sample_emulator_def)
  from create_memory_dump_reads_only [of "''out''" ?w]
  have "emu (create_memory_dump ''out'' ?w) = sample_emulator"
    and "\<exists>text. files (create_memory_dump ''out'' ?w) ''out.CACHE.dmp'' = Some text
      \<and> emitted_in_order text [1, 2, 3, 65535, 0, 0, 0, 0, 0, 0, 0, 0, 0, 0, 0, 0, 17, 18]"
    and "\<exists>text. files (create_memory_dump ''out'' ?w) ''out.STACK.dmp'' = Some text
      \<and> emitted_in_order text []"
    by (simp_all add: sample_emulator_def)
  moreover have "dump_rows (stream (private_create_memory_dump ''STACK'' (open_w []))) = []"
    by (simp add: dump_rows_private_create_memory_dump section_names_plain range3.simps)
  ultimately show ?thesis
    using create_memory_dump_files(1,2) [of "''out''" ?w] dump_rows_example
    by (simp add: c s)
qed

end
